theory Spec2Isabelle
  imports Complex_Main "HOL-Library.Word"
begin

unbundle bit_operations_syntax

section \<open>Python values and exceptions\<close>

text \<open>
  Python's unbounded integers are \<^typ>\<open>int\<close>; strings are \<^typ>\<open>string\<close>.
  Python floats are numbers of a type \<open>'a\<close> wherever the source only adds, divides and
  compares them: what is proved there holds for every such number type, whatever its
  arithmetic does. Where a function needs more of the numbers (truncation to an integer),
  and wherever a term is evaluated, the numbers are \<^typ>\<open>real\<close>, without rounding.
  An exception is a value: the class of the exception, and for the file operations the
  message that \<open>str(e)\<close> gives.
\<close>

datatype py_exc = ValueError | TypeError | AttributeError | KeyError | IndexError | OverflowError

section \<open>GPSConverter.to_geohash (src/src/processing/gps_converter.py)\<close>

definition base32 :: string where
  "base32 = ''0123456789bcdefghjkmnpqrstuvwxyz''"

text \<open>Python's \<open>s[i]\<close> on a string: a negative index counts from the end, and an
  index out of range raises IndexError.\<close>

definition str_index :: "string \<Rightarrow> int \<Rightarrow> py_exc + char" where
  "str_index s i =
     (let n = int (length s); j = (if i < 0 then n + i else i)
      in if 0 \<le> j \<and> j < n then Inr (s ! nat j) else Inl IndexError)"

text \<open>Python's \<open>1 << k\<close>: a negative shift count raises ValueError.\<close>

definition shl1 :: "int \<Rightarrow> py_exc + int" where
  "shl1 k = (if k < 0 then Inl ValueError else Inr (push_bit (nat k) 1))"

text \<open>The local variables of the loop. The two ranges are two-element lists in the
  source; here each is the pair of its elements.\<close>

record 'a gh_state =
  lat_range :: "'a \<times> 'a"
  lon_range :: "'a \<times> 'a"
  geohash :: string
  bit :: int
  ch :: int
  even :: bool

text \<open>\<open>ch |= (1 << (4 - bit))\<close>\<close>

definition set_bit_ch :: "'a gh_state \<Rightarrow> py_exc + int" where
  "set_bit_ch s = (case shl1 (4 - bit s) of Inl e \<Rightarrow> Inl e | Inr m \<Rightarrow> Inr (ch s OR m))"

text \<open>The part of the loop body that bisects one range.\<close>

definition bisect :: "'a::{numeral,inverse,ord} \<Rightarrow> 'a \<Rightarrow> 'a gh_state \<Rightarrow> py_exc + 'a gh_state" where
  "bisect latitude longitude s =
     (if even s then
        (let mid = (fst (lon_range s) + snd (lon_range s)) / 2 in
         if longitude \<ge> mid then
           (case set_bit_ch s of Inl e \<Rightarrow> Inl e
            | Inr c \<Rightarrow> Inr (s\<lparr>ch := c, lon_range := (mid, snd (lon_range s))\<rparr>))
         else Inr (s\<lparr>lon_range := (fst (lon_range s), mid)\<rparr>))
      else
        (let mid = (fst (lat_range s) + snd (lat_range s)) / 2 in
         if latitude \<ge> mid then
           (case set_bit_ch s of Inl e \<Rightarrow> Inl e
            | Inr c \<Rightarrow> Inr (s\<lparr>ch := c, lat_range := (mid, snd (lat_range s))\<rparr>))
         else Inr (s\<lparr>lat_range := (fst (lat_range s), mid)\<rparr>)))"

text \<open>The rest of the loop body: flip \<open>even\<close>, then count the bit or emit a symbol.\<close>

definition advance :: "'a gh_state \<Rightarrow> py_exc + 'a gh_state" where
  "advance s =
     (let s1 = s\<lparr>even := \<not> even s\<rparr> in
      if bit s1 < 4 then Inr (s1\<lparr>bit := bit s1 + 1\<rparr>)
      else (case str_index base32 (ch s1) of Inl e \<Rightarrow> Inl e
            | Inr c \<Rightarrow> Inr (s1\<lparr>geohash := geohash s1 @ [c], bit := 0, ch := 0\<rparr>)))"

definition loop_body :: "'a::{numeral,inverse,ord} \<Rightarrow> 'a \<Rightarrow> 'a gh_state \<Rightarrow> py_exc + 'a gh_state" where
  "loop_body latitude longitude s =
     (case bisect latitude longitude s of Inl e \<Rightarrow> Inl e | Inr s1 \<Rightarrow> advance s1)"

text \<open>What one pass through the body does to the loop's variant.\<close>

definition gh_variant :: "int \<Rightarrow> 'a gh_state \<Rightarrow> nat" where
  "gh_variant precision s =
     5 * nat (precision - int (length (geohash s))) + nat (4 - bit s)"

lemma bisect_keeps:
  assumes "bisect latitude longitude s = Inr s1"
  shows "geohash s1 = geohash s" and "bit s1 = bit s" and "even s1 = even s"
  using assms
  by (auto simp: bisect_def Let_def split: if_splits sum.splits)

lemma loop_body_variant:
  assumes "loop_body latitude longitude s = Inr s'"
    and "int (length (geohash s)) < precision"
  shows "gh_variant precision s' < gh_variant precision s"
proof -
  from assms(1) obtain s1 where b: "bisect latitude longitude s = Inr s1"
    and a: "advance s1 = Inr s'"
    by (auto simp: loop_body_def split: sum.splits)
  note k = bisect_keeps [OF b]
  show ?thesis
  proof (cases "bit s1 < 4")
    case True
    with a have "geohash s' = geohash s1" "bit s' = bit s1 + 1"
      by (auto simp: advance_def Let_def)
    with True k assms(2) show ?thesis
      by (simp add: gh_variant_def)
  next
    case False
    with a have "length (geohash s') = Suc (length (geohash s1))" "bit s' = 0"
      by (auto simp: advance_def Let_def split: sum.splits)
    with False k assms(2) show ?thesis
      by (simp add: gh_variant_def)
  qed
qed

function geohash_loop ::
  "'a::{numeral,inverse,ord} \<Rightarrow> 'a \<Rightarrow> int \<Rightarrow> 'a gh_state \<Rightarrow> py_exc + string" where
  "geohash_loop latitude longitude precision s =
     (if int (length (geohash s)) < precision then
        (case loop_body latitude longitude s of
           Inl e \<Rightarrow> Inl e
         | Inr s' \<Rightarrow> geohash_loop latitude longitude precision s')
      else Inr (geohash s))"
  by pat_completeness auto
termination
  by (relation "measure (\<lambda>(latitude, longitude, precision, s). gh_variant precision s)")
     (auto intro: loop_body_variant)

declare geohash_loop.simps [simp del]

definition gh_init :: "'a::{numeral,uminus} gh_state" where
  "gh_init = \<lparr>lat_range = (-90, 90), lon_range = (-180, 180), geohash = [],
              bit = 0, ch = 0, even = True\<rparr>"

definition to_geohash :: "'a::{numeral,uminus,inverse,ord} \<Rightarrow> 'a \<Rightarrow> int \<Rightarrow> py_exc + string" where
  "to_geohash latitude longitude precision = geohash_loop latitude longitude precision gh_init"

subsection \<open>The geohash as the specification words it\<close>

text \<open>
  One bisection of a range \<open>r\<close> for the coordinate \<open>x\<close>: the bit is 1 exactly when
  \<open>x\<close> is at least the midpoint, and the range becomes the half that was chosen.
\<close>

definition halve :: "'a::{numeral,inverse,ord} \<times> 'a \<Rightarrow> 'a \<Rightarrow> bool \<times> ('a \<times> 'a)" where
  "halve r x =
     (let mid = (fst r + snd r) / 2
      in if x \<ge> mid then (True, (mid, snd r)) else (False, (fst r, mid)))"

fun bisect_bits ::
  "nat \<Rightarrow> bool \<Rightarrow> 'a::{numeral,inverse,ord} \<times> 'a \<Rightarrow> 'a \<times> 'a \<Rightarrow> 'a \<Rightarrow> 'a \<Rightarrow> bool list" where
  "bisect_bits 0 is_lon lonr latr latitude longitude = []"
| "bisect_bits (Suc n) is_lon lonr latr latitude longitude =
     (if is_lon then
        (case halve lonr longitude of (b, r) \<Rightarrow> b # bisect_bits n False r latr latitude longitude)
      else
        (case halve latr latitude of (b, r) \<Rightarrow> b # bisect_bits n True lonr r latitude longitude))"

text \<open>Five bits, most significant first, are one symbol of the alphabet.\<close>

definition bits_value :: "bool list \<Rightarrow> nat" where
  "bits_value bs = foldl (\<lambda>a b. 2 * a + of_bool b) 0 bs"

fun symbols :: "bool list \<Rightarrow> string" where
  "symbols (b0 # b1 # b2 # b3 # b4 # bs) = base32 ! bits_value [b0, b1, b2, b3, b4] # symbols bs"
| "symbols bs = []"

definition geohash_spec :: "'a::{numeral,uminus,inverse,ord} \<Rightarrow> 'a \<Rightarrow> nat \<Rightarrow> string" where
  "geohash_spec latitude longitude p =
     symbols (bisect_bits (5 * p) True (-180, 180) (-90, 90) latitude longitude)"

subsection \<open>The loop computes the specified geohash\<close>

lemma bits_value_snoc: "bits_value (bs @ [b]) = 2 * bits_value bs + of_bool b"
  by (simp add: bits_value_def)

lemma bits_value_less: "bits_value bs < 2 ^ length bs"
proof (induction bs rule: rev_induct)
  case Nil
  show ?case by (simp add: bits_value_def)
next
  case (snoc b bs)
  then show ?case by (auto simp: bits_value_snoc)
qed

lemma symbols_chunk:
  "length xs = 5 \<Longrightarrow> symbols (xs @ ys) = base32 ! bits_value xs # symbols ys"
  by (auto simp: length_Suc_conv eval_nat_numeral)

lemma push_bit_Suc_double:
  fixes a :: int
  shows "push_bit (Suc m) a = push_bit m (2 * a)"
  by (simp add: push_bit_eq_mult)

lemma or_shifted:
  fixes a :: int
  shows "push_bit (Suc m) a OR push_bit m 1 = push_bit m (2 * a + 1)"
proof -
  have "(2 * a) OR 1 = 2 * a + 1"
    by (simp add: or_one_eq)
  then have "push_bit m ((2 * a) OR 1) = push_bit m (2 * a + 1)"
    by (rule arg_cong)
  then have "push_bit m (2 * a) OR push_bit m 1 = push_bit m (2 * a + 1)"
    by (simp only: push_bit_or)
  then show ?thesis
    by (simp only: push_bit_Suc_double)
qed

lemma or_shifted_pow:
  fixes a :: int
  shows "push_bit (Suc m) a OR 2 ^ m = push_bit m (1 + 2 * a)"
  using or_shifted [of m a] by (simp add: add.commute del: push_bit_Suc)


text \<open>
  The invariant of the loop: \<open>bit\<close> counts the bits \<open>bs\<close> gathered for the next symbol,
  and \<open>ch\<close> holds them in its top positions.
\<close>

definition next_bit :: "'a::{numeral,inverse,ord} \<Rightarrow> 'a \<Rightarrow> 'a gh_state \<Rightarrow> bool" where
  "next_bit latitude longitude s =
     (if even s then fst (halve (lon_range s) longitude) else fst (halve (lat_range s) latitude))"

definition next_lon :: "'a::{numeral,inverse,ord} \<Rightarrow> 'a gh_state \<Rightarrow> 'a \<times> 'a" where
  "next_lon longitude s = (if even s then snd (halve (lon_range s) longitude) else lon_range s)"

definition next_lat :: "'a::{numeral,inverse,ord} \<Rightarrow> 'a gh_state \<Rightarrow> 'a \<times> 'a" where
  "next_lat latitude s = (if even s then lat_range s else snd (halve (lat_range s) latitude))"

definition gh_inv :: "'a gh_state \<Rightarrow> bool list \<Rightarrow> bool" where
  "gh_inv s bs \<longleftrightarrow> bit s = int (length bs) \<and> length bs \<le> 4 \<and>
     ch s = push_bit (5 - length bs) (int (bits_value bs))"

lemma bisect_bits_Suc:
  "bisect_bits (Suc n) (even s) (lon_range s) (lat_range s) latitude longitude =
     next_bit latitude longitude s #
     bisect_bits n (\<not> even s) (next_lon longitude s) (next_lat latitude s) latitude longitude"
  by (simp add: next_bit_def next_lon_def next_lat_def split: prod.splits)

lemma set_bit_ch_inv:
  assumes "gh_inv s bs"
  shows "set_bit_ch s = Inr (push_bit (4 - length bs) (int (bits_value (bs @ [True]))))"
proof -
  from assms have k: "bit s = int (length bs)" "length bs \<le> 4"
    and c: "ch s = push_bit (5 - length bs) (int (bits_value bs))"
    by (simp_all add: gh_inv_def)
  from k have m: "nat (4 - bit s) = 4 - length bs" "5 - length bs = Suc (4 - length bs)"
    by simp_all
  from k have "shl1 (4 - bit s) = Inr (push_bit (4 - length bs) 1)"
    by (simp add: shl1_def m)
  then show ?thesis
    by (simp add: set_bit_ch_def c m(2) or_shifted_pow bits_value_snoc del: push_bit_Suc)
qed

lemma bisect_inv:
  assumes "gh_inv s bs"
  shows "bisect latitude longitude s =
     Inr (s\<lparr>ch := push_bit (4 - length bs)
                    (int (bits_value (bs @ [next_bit latitude longitude s]))),
            lon_range := next_lon longitude s, lat_range := next_lat latitude s\<rparr>)"
proof -
  from assms have "length bs \<le> 4"
    by (simp add: gh_inv_def)
  then have "5 - length bs = Suc (4 - length bs)"
    by arith
  with assms have c: "ch s = push_bit (4 - length bs) (int (bits_value (bs @ [False])))"
    by (simp add: gh_inv_def bits_value_snoc push_bit_Suc_double del: push_bit_Suc)
  show ?thesis
    using set_bit_ch_inv [OF assms] c
    by (simp add: bisect_def halve_def next_bit_def next_lon_def next_lat_def Let_def)
qed


lemma loop_body_count:
  assumes "gh_inv s bs" and "length bs < 4"
  shows "\<exists>s'. loop_body latitude longitude s = Inr s' \<and>
           gh_inv s' (bs @ [next_bit latitude longitude s]) \<and>
           geohash s' = geohash s \<and> even s' = (\<not> even s) \<and>
           lon_range s' = next_lon longitude s \<and> lat_range s' = next_lat latitude s"
proof -
  from assms have "bit s < 4" "4 - length bs = Suc (3 - length bs)"
    by (simp_all add: gh_inv_def)
  with assms show ?thesis
    by (simp add: loop_body_def bisect_inv [OF assms(1)] advance_def gh_inv_def
        del: push_bit_Suc)
qed

lemma loop_body_emit:
  assumes "gh_inv s bs" and "length bs = 4"
  shows "\<exists>s'. loop_body latitude longitude s = Inr s' \<and>
           gh_inv s' [] \<and>
           geohash s' = geohash s @ [base32 ! bits_value (bs @ [next_bit latitude longitude s])] \<and>
           even s' = (\<not> even s) \<and>
           lon_range s' = next_lon longitude s \<and> lat_range s' = next_lat latitude s"
proof -
  let ?v = "bits_value (bs @ [next_bit latitude longitude s])"
  have "?v < 2 ^ length (bs @ [next_bit latitude longitude s])"
    by (rule bits_value_less)
  with assms(2) have v: "?v < 32"
    by simp
  then have "str_index base32 (int ?v) = Inr (base32 ! ?v)"
    by (simp add: str_index_def base32_def)
  with assms show ?thesis
    by (simp add: loop_body_def bisect_inv [OF assms(1)] advance_def gh_inv_def
        bits_value_def)
qed

lemma geohash_loop_inv:
  assumes "gh_inv s bs"
  shows "geohash_loop latitude longitude precision s =
     Inr (if int (length (geohash s)) < precision then
            geohash s @
            symbols (bs @ bisect_bits (5 * nat (precision - int (length (geohash s))) - length bs)
                            (even s) (lon_range s) (lat_range s) latitude longitude)
          else geohash s)"
  using assms
proof (induction latitude longitude precision s arbitrary: bs rule: geohash_loop.induct)
  case (1 latitude longitude precision s)
  let ?n = "nat (precision - int (length (geohash s)))"
  let ?b = "next_bit latitude longitude s"
  show ?case
  proof (cases "int (length (geohash s)) < precision")
    case False
    then show ?thesis
      by (subst geohash_loop.simps) simp
  next
    case True
    from "1.prems" have le: "length bs \<le> 4"
      by (simp add: gh_inv_def)
    from True have n: "0 < ?n"
      by simp
    with le have unfold: "5 * ?n - length bs = Suc (5 * ?n - Suc (length bs))"
      by arith
    show ?thesis
    proof (cases "length bs < 4")
      case count: True
      from loop_body_count [OF "1.prems" count, of latitude longitude]
      obtain s' where body: "loop_body latitude longitude s = Inr s'"
        and inv: "gh_inv s' (bs @ [?b])"
        and same: "geohash s' = geohash s" "even s' = (\<not> even s)"
          "lon_range s' = next_lon longitude s" "lat_range s' = next_lat latitude s"
        by blast
      have "geohash_loop latitude longitude precision s =
          geohash_loop latitude longitude precision s'"
        using True body by (subst geohash_loop.simps) simp
      also have "\<dots> = Inr (geohash s @ symbols ((bs @ [?b]) @
          bisect_bits (5 * ?n - Suc (length bs)) (\<not> even s)
            (next_lon longitude s) (next_lat latitude s) latitude longitude))"
        using "1.IH" [OF True body inv] True same by simp
      finally show ?thesis
        using True by (simp add: unfold bisect_bits_Suc del: bisect_bits.simps)
    next
      case False
      with le have four: "length bs = 4"
        by simp
      from loop_body_emit [OF "1.prems" four, of latitude longitude]
      obtain s' where body: "loop_body latitude longitude s = Inr s'"
        and inv: "gh_inv s' []"
        and out: "geohash s' = geohash s @ [base32 ! bits_value (bs @ [?b])]"
        and same: "even s' = (\<not> even s)"
          "lon_range s' = next_lon longitude s" "lat_range s' = next_lat latitude s"
        by blast
      let ?rest = "bisect_bits (5 * ?n - Suc (length bs)) (\<not> even s)
            (next_lon longitude s) (next_lat latitude s) latitude longitude"
      have rest: "5 * nat (precision - int (length (geohash s'))) = 5 * ?n - Suc (length bs)"
        using True out four by simp
      have chunk: "symbols ((bs @ [?b]) @ ?rest) = base32 ! bits_value (bs @ [?b]) # symbols ?rest"
        by (rule symbols_chunk) (simp add: four)
      have "geohash_loop latitude longitude precision s =
          geohash_loop latitude longitude precision s'"
        using True body by (subst geohash_loop.simps) simp
      also have "\<dots> = Inr (geohash s' @ symbols (
          bisect_bits (5 * nat (precision - int (length (geohash s')))) (\<not> even s)
            (next_lon longitude s) (next_lat latitude s) latitude longitude))"
        using "1.IH" [OF True body inv] same
        by (cases "int (length (geohash s')) < precision") simp_all
      also have "\<dots> = Inr (geohash s' @ symbols ?rest)"
        by (simp only: rest)
      also have "\<dots> = Inr (geohash s @ symbols ((bs @ [?b]) @ ?rest))"
        by (simp only: chunk out) simp
      finally show ?thesis
        using True by (simp add: unfold bisect_bits_Suc del: bisect_bits.simps)
    qed
  qed
qed

lemma gh_inv_init: "gh_inv gh_init []"
  by (simp add: gh_inv_def gh_init_def bits_value_def)

lemma to_geohash_refines:
  "to_geohash latitude longitude precision = Inr (geohash_spec latitude longitude (nat precision))"
  using geohash_loop_inv [OF gh_inv_init, of latitude longitude precision]
  by (simp add: to_geohash_def geohash_spec_def gh_init_def)

lemma length_bisect_bits [simp]:
  "length (bisect_bits n is_lon lonr latr latitude longitude) = n"
  by (induction n arbitrary: is_lon lonr latr) (auto split: prod.splits)

lemma length_symbols: "length (symbols bs) = length bs div 5"
  by (induction bs rule: symbols.induct) simp_all

lemma set_symbols: "set (symbols bs) \<subseteq> set base32"
proof (induction bs rule: symbols.induct)
  case (1 b0 b1 b2 b3 b4 bs)
  have "bits_value [b0, b1, b2, b3, b4] < 2 ^ length [b0, b1, b2, b3, b4]"
    by (rule bits_value_less)
  then have "bits_value [b0, b1, b2, b3, b4] < length base32"
    by (simp add: base32_def)
  then have "base32 ! bits_value [b0, b1, b2, b3, b4] \<in> set base32"
    by (rule nth_mem)
  with 1 show ?case by simp
qed simp_all





text \<open>
  Claim C10. For every latitude, longitude and integer precision, \<open>to_geohash\<close> returns
  (the loop ends, and neither the shift nor the indexing of the alphabet raises), the
  string it returns has exactly \<open>max precision 0\<close> characters, and each of them is a
  character of the alphabet.
\<close>

theorem to_geohash_terminates:
  fixes latitude longitude :: "'a::{numeral,uminus,inverse,ord}"
  shows "\<exists>g. to_geohash latitude longitude precision = Inr g \<and>
       int (length g) = max precision 0 \<and> set g \<subseteq> set base32"
proof -
  let ?g = "geohash_spec latitude longitude (nat precision)"
  have "to_geohash latitude longitude precision = Inr ?g"
    by (rule to_geohash_refines)
  moreover have "int (length ?g) = max precision 0"
    by (simp add: geohash_spec_def length_symbols)
  moreover have "set ?g \<subseteq> set base32"
    unfolding geohash_spec_def by (rule set_symbols)
  ultimately show ?thesis by blast
qed

section \<open>GPSConverter.to_utm (src/src/processing/gps_converter.py)\<close>

text \<open>Python's \<open>int(x)\<close> on a float: truncation towards zero.\<close>

definition py_trunc :: "real \<Rightarrow> int" where
  "py_trunc x = (if 0 \<le> x then \<lfloor>x\<rfloor> else \<lceil>x\<rceil>)"

text \<open>\<open>str\<close> of an integer, as an f-string formats it: decimal digits, a minus sign
  before a negative number.\<close>

fun str_nat :: "nat \<Rightarrow> string" where
  "str_nat n = (if n < 10 then [''0123456789'' ! n] else str_nat (n div 10) @ [''0123456789'' ! (n mod 10)])"

definition str_int :: "int \<Rightarrow> string" where
  "str_int i = (if i < 0 then CHR ''-'' # str_nat (nat (- i)) else str_nat (nat i))"

text \<open>\<open>zone = int((longitude + 180) / 6) + 1\<close>\<close>

definition utm_zone :: "real \<Rightarrow> int" where
  "utm_zone longitude = py_trunc ((longitude + 180) / 6) + 1"

definition to_utm :: "real \<Rightarrow> real \<Rightarrow> string" where
  "to_utm latitude longitude =
     (let zone = utm_zone longitude;
          hemisphere = (if latitude \<ge> 0 then ''N'' else ''S'')
      in ''Zone '' @ str_int zone @ hemisphere @
         '' (Approximate conversion - use specialized library for precise UTM)'')"

section \<open>GPSConverter._dms_to_decimal (src/src/processing/gps_converter.py)\<close>

text \<open>
  A Python string is the list of the bytes of its UTF-8 encoding. \<open>str.upper\<close> is a
  method of Python and not of the repository: it is a parameter \<open>str_upper\<close> of the model,
  of which nothing is assumed. For evaluating the model on ASCII strings, where
  \<open>str.upper\<close> changes the letters \<open>a\<close> to \<open>z\<close> only, there is \<open>ascii_upper\<close>.
\<close>

definition ascii_upper_char :: "char \<Rightarrow> char" where
  "ascii_upper_char c =
     (case map_of (zip ''abcdefghijklmnopqrstuvwxyz'' ''ABCDEFGHIJKLMNOPQRSTUVWXYZ'') c of
        Some u \<Rightarrow> u | None \<Rightarrow> c)"

definition ascii_upper :: "string \<Rightarrow> string" where
  "ascii_upper s = map ascii_upper_char s"

text \<open>
  An element of a DMS datum is known by what \<open>float\<close> makes of it: a number, or the
  exception that \<open>float\<close> raises for it (ValueError for a string that is no number,
  TypeError for \<open>None\<close>, OverflowError for an integer too large).
\<close>

datatype 'a component = Number 'a | NotNumber py_exc

definition py_float :: "'a component \<Rightarrow> py_exc + 'a" where
  "py_float c = (case c of Number x \<Rightarrow> Inr x | NotNumber e \<Rightarrow> Inl e)"

text \<open>
  The values that an entry of the GPS dictionary can hold: \<open>None\<close>, a string, bytes, a
  number, a list or tuple of elements, or another iterable object (with the truth value it
  has, and the elements that \<open>list\<close> gives).
\<close>

datatype 'a py_value =
    PNone
  | PStr string
  | PBytes string
  | PNum 'a
  | PSeq "'a component list"
  | PIter bool "'a component list"

definition truthy :: "'a::zero py_value \<Rightarrow> bool" where
  "truthy v = (case v of
       PNone \<Rightarrow> False
     | PStr s \<Rightarrow> s \<noteq> []
     | PBytes s \<Rightarrow> s \<noteq> []
     | PNum x \<Rightarrow> x \<noteq> 0
     | PSeq xs \<Rightarrow> xs \<noteq> []
     | PIter t xs \<Rightarrow> t)"

text \<open>\<open>float(x[0])\<close>, \<open>float(x[1])\<close>, \<open>float(x[2])\<close>, in this order; the first
  exception raised ends the conversion.\<close>

definition first_three :: "'a component list \<Rightarrow> py_exc + ('a \<times> 'a \<times> 'a)" where
  "first_three xs =
     (case py_float (xs ! 0) of Inl e \<Rightarrow> Inl e | Inr degrees \<Rightarrow>
      case py_float (xs ! 1) of Inl e \<Rightarrow> Inl e | Inr minutes \<Rightarrow>
      case py_float (xs ! 2) of Inl e \<Rightarrow> Inl e | Inr seconds \<Rightarrow>
        Inr (degrees, minutes, seconds))"

text \<open>The decimal value and the reference direction: lines 91 to 97.\<close>

definition to_decimal ::
  "(string \<Rightarrow> string) \<Rightarrow> 'a::{numeral,inverse,uminus} \<times> 'a \<times> 'a \<Rightarrow> 'a py_value \<Rightarrow> 'a" where
  "to_decimal str_upper dms ref =
     (case dms of (degrees, minutes, seconds) \<Rightarrow>
        let decimal = degrees + (minutes / 60) + (seconds / 3600)
        in if (case ref of PStr r \<Rightarrow> str_upper r \<in> set [''S'', ''W''] | _ \<Rightarrow> False)
           then - decimal else decimal)"

text \<open>The body of the \<open>try\<close>. A list or tuple shorter than three falls to the second
  branch, which it also fails; a string or bytes object is iterable but excluded.\<close>

definition dms_body ::
  "(string \<Rightarrow> string) \<Rightarrow> 'a::{numeral,inverse,uminus} py_value \<Rightarrow> 'a py_value \<Rightarrow> py_exc + 'a option" where
  "dms_body str_upper dms_data ref =
     (case dms_data of
        PSeq xs \<Rightarrow>
          if length xs \<ge> 3 then
            (case first_three xs of Inl e \<Rightarrow> Inl e | Inr dms \<Rightarrow> Inr (Some (to_decimal str_upper dms ref)))
          else Inr None
      | PIter t xs \<Rightarrow>
          if length xs \<ge> 3 then
            (case first_three xs of Inl e \<Rightarrow> Inl e | Inr dms \<Rightarrow> Inr (Some (to_decimal str_upper dms ref)))
          else Inr None
      | _ \<Rightarrow> Inr None)"

text \<open>\<open>except (ValueError, TypeError, AttributeError): return None\<close>; any other
  exception leaves the function.\<close>

definition dms_to_decimal ::
  "(string \<Rightarrow> string) \<Rightarrow> 'a::{numeral,inverse,uminus} py_value \<Rightarrow> 'a py_value \<Rightarrow> py_exc + 'a option" where
  "dms_to_decimal str_upper dms_data ref =
     (case dms_body str_upper dms_data ref of
        Inl e \<Rightarrow> if e \<in> set [ValueError, TypeError, AttributeError] then Inr None else Inl e
      | Inr v \<Rightarrow> Inr v)"

section \<open>GPSConverter.parse_exif_gps (src/src/processing/gps_converter.py)\<close>

text \<open>A dictionary is the list of its items; its keys are strings or integers.\<close>

datatype py_key = KStr string | KInt int

datatype 'a py_arg = NotDict | Dict "(py_key \<times> 'a py_value) list"

text \<open>\<open>d.get(k, default)\<close>\<close>

definition dict_get :: "(py_key \<times> 'a py_value) list \<Rightarrow> py_key \<Rightarrow> 'a py_value \<Rightarrow> 'a py_value" where
  "dict_get d k dflt = (case map_of d k of Some v \<Rightarrow> v | None \<Rightarrow> dflt)"

text \<open>The four entries read from the dictionary (lines 30 to 35), each by its name or
  else by its EXIF tag number.\<close>

definition gps_fields ::
  "(py_key \<times> 'a py_value) list \<Rightarrow> 'a py_value \<times> 'a py_value \<times> 'a py_value \<times> 'a py_value" where
  "gps_fields d =
     (dict_get d (KStr ''GPSLatitudeRef'') (dict_get d (KInt 1) PNone),
      dict_get d (KStr ''GPSLatitude'') (dict_get d (KInt 2) PNone),
      dict_get d (KStr ''GPSLongitudeRef'') (dict_get d (KInt 3) PNone),
      dict_get d (KStr ''GPSLongitude'') (dict_get d (KInt 4) PNone))"

definition parse_body ::
  "(string \<Rightarrow> string) \<Rightarrow> (py_key \<times> 'a py_value) list \<Rightarrow>
     py_exc + ('a::{numeral,inverse,uminus,ord,zero} \<times> 'a) option" where
  "parse_body str_upper d =
     (case gps_fields d of (lat_ref, lat_data, lon_ref, lon_data) \<Rightarrow>
        if \<not> list_all truthy [lat_ref, lat_data, lon_ref, lon_data] then Inr None
        else
          (case dms_to_decimal str_upper lat_data lat_ref of Inl e \<Rightarrow> Inl e | Inr latitude \<Rightarrow>
           case dms_to_decimal str_upper lon_data lon_ref of Inl e \<Rightarrow> Inl e | Inr longitude \<Rightarrow>
           (case (latitude, longitude) of
              (Some lat, Some lon) \<Rightarrow>
                if \<not> (- 90 \<le> lat \<and> lat \<le> 90) \<or> \<not> (- 180 \<le> lon \<and> lon \<le> 180) then Inr None
                else if lat = 0 \<and> lon = 0 then Inr None
                else Inr (Some (lat, lon))
            | _ \<Rightarrow> Inr None)))"

text \<open>An argument that is empty or not a dictionary gives \<open>None\<close>; the \<open>except\<close>
  clause turns KeyError, ValueError, TypeError and IndexError into \<open>None\<close>.\<close>

definition parse_exif_gps ::
  "(string \<Rightarrow> string) \<Rightarrow> 'a::{numeral,inverse,uminus,ord,zero} py_arg \<Rightarrow> py_exc + ('a \<times> 'a) option" where
  "parse_exif_gps str_upper gps_info =
     (case gps_info of
        NotDict \<Rightarrow> Inr None
      | Dict d \<Rightarrow>
          if d = [] then Inr None
          else (case parse_body str_upper d of
                  Inl e \<Rightarrow> if e \<in> set [KeyError, ValueError, TypeError, IndexError] then Inr None else Inl e
                | Inr v \<Rightarrow> Inr v))"

subsection \<open>Properties of \<open>_dms_to_decimal\<close>\<close>

text \<open>The components that a datum provides to the conversion: the elements of a list,
  a tuple or another iterable object. A string or a bytes object provides none, since the
  code excludes both, and neither does a value that cannot be iterated.\<close>

definition components :: "'a py_value \<Rightarrow> 'a component list" where
  "components v = (case v of PSeq xs \<Rightarrow> xs | PIter t xs \<Rightarrow> xs | _ \<Rightarrow> [])"

lemma first_three_numbers:
  assumes "take 3 xs = [Number d, Number m, Number s]"
  shows "3 \<le> length xs" and "first_three xs = Inr (d, m, s)"
proof -
  from assms have "length (take 3 xs) = 3" by simp
  then show len: "3 \<le> length xs" by simp
  from assms have "take 3 xs ! 0 = Number d" "take 3 xs ! 1 = Number m" "take 3 xs ! 2 = Number s"
    by simp_all
  then have "xs ! 0 = Number d" "xs ! 1 = Number m" "xs ! 2 = Number s"
    by simp_all
  then show "first_three xs = Inr (d, m, s)"
    by (simp add: first_three_def py_float_def)
qed

text \<open>
  Claim C6. When the first three components of the datum are the numbers \<open>d\<close>, \<open>m\<close>, \<open>s\<close>
  and the reference is a string, \<open>_dms_to_decimal\<close> returns \<open>d + m/60 + s/3600\<close>, negated
  exactly when the reference, taken without regard to case as \<open>str.upper\<close> does, is \<open>S\<close>
  or \<open>W\<close>; when the datum provides fewer than three components it returns \<open>None\<close>. This
  holds whatever \<open>str.upper\<close> does to a string, and for every number type.
\<close>

theorem dms_to_decimal_value:
  fixes d m s :: "'a::{numeral,inverse,uminus}"
  shows "(take 3 (components dms_data) = [Number d, Number m, Number s] \<longrightarrow>
           dms_to_decimal str_upper dms_data (PStr ref) =
             Inr (Some (if str_upper ref = ''S'' \<or> str_upper ref = ''W''
                        then - (d + m / 60 + s / 3600) else d + m / 60 + s / 3600))) \<and>
         (length (components dms_data) < 3 \<longrightarrow>
            dms_to_decimal str_upper dms_data ref' = Inr None)"
proof (intro conjI impI)
  assume three: "take 3 (components dms_data) = [Number d, Number m, Number s]"
  note ft = first_three_numbers [OF three]
  have body: "dms_body str_upper dms_data (PStr ref) =
      Inr (Some (to_decimal str_upper (d, m, s) (PStr ref)))"
  proof (cases dms_data)
    case (PSeq xs)
    with ft show ?thesis by (simp add: dms_body_def components_def)
  next
    case (PIter t xs)
    with ft show ?thesis by (simp add: dms_body_def components_def)
  qed (use three in \<open>simp_all add: components_def\<close>)
  have "to_decimal str_upper (d, m, s) (PStr ref) =
      (if str_upper ref = ''S'' \<or> str_upper ref = ''W''
       then - (d + m / 60 + s / 3600) else d + m / 60 + s / 3600)"
    by (simp add: to_decimal_def Let_def)
  with body show "dms_to_decimal str_upper dms_data (PStr ref) =
      Inr (Some (if str_upper ref = ''S'' \<or> str_upper ref = ''W''
                 then - (d + m / 60 + s / 3600) else d + m / 60 + s / 3600))"
    by (simp add: dms_to_decimal_def)
next
  assume "length (components dms_data) < 3"
  then have "dms_body str_upper dms_data ref' = Inr None"
    by (cases dms_data) (simp_all add: dms_body_def components_def)
  then show "dms_to_decimal str_upper dms_data ref' = Inr None"
    by (simp add: dms_to_decimal_def)
qed

theorem dms_to_decimal_value_witness:
  "dms_to_decimal ascii_upper (PSeq [Number 74, Number 0, Number (21.6 :: real)]) (PStr ''w'') =
     Inr (Some (- 74.006)) \<and>
   dms_to_decimal ascii_upper (PSeq [Number 74, Number 0, Number (21.6 :: real)]) (PStr ''E'') =
     Inr (Some 74.006) \<and>
   dms_to_decimal ascii_upper (PSeq [Number 74, Number (0 :: real)]) (PStr ''w'') = Inr None"
  using dms_to_decimal_value [of "PSeq [Number 74, Number 0, Number (21.6 :: real)]" 74 0 "21.6"
      ascii_upper "''w''"]
    dms_to_decimal_value [of "PSeq [Number 74, Number 0, Number (21.6 :: real)]" 74 0 "21.6"
      ascii_upper "''E''"]
    dms_to_decimal_value [of "PSeq [Number 74, Number (0 :: real)]" 0 0 0 ascii_upper "[]"
      "PStr ''w''"]
  by (simp add: components_def ascii_upper_def ascii_upper_char_def)

subsection \<open>Properties of \<open>parse_exif_gps\<close>\<close>

text \<open>Two dictionaries: a point in New York by tag names, and the null island by tag
  numbers.\<close>

definition gps_new_york :: "(py_key \<times> real py_value) list" where
  "gps_new_york =
     [(KStr ''GPSLatitudeRef'', PStr ''N''),
      (KStr ''GPSLatitude'', PSeq [Number 40, Number 42, Number 46.08]),
      (KStr ''GPSLongitudeRef'', PStr ''W''),
      (KStr ''GPSLongitude'', PSeq [Number 74, Number 0, Number 21.6])]"

definition gps_null_island :: "(py_key \<times> real py_value) list" where
  "gps_null_island =
     [(KInt 1, PStr ''N''), (KInt 2, PSeq [Number 0, Number 0, Number 0]),
      (KInt 3, PStr ''E''), (KInt 4, PSeq [Number 0, Number 0, Number 0])]"

lemma parse_new_york:
  "parse_exif_gps ascii_upper (Dict gps_new_york) = Inr (Some (40.7128, - 74.006))"
  by (simp add: parse_exif_gps_def parse_body_def gps_fields_def dict_get_def gps_new_york_def
      truthy_def dms_to_decimal_def dms_body_def first_three_def py_float_def to_decimal_def
      ascii_upper_def ascii_upper_char_def)

lemma dms_zero:
  "dms_to_decimal str_upper (PSeq [Number 0, Number 0, Number (0::real)]) (PStr r) = Inr (Some 0)"
  by (simp add: dms_to_decimal_def dms_body_def first_three_def py_float_def to_decimal_def)

text \<open>
  Claim C2. A pair that \<open>parse_exif_gps\<close> returns has its latitude in \<open>[-90, 90]\<close>, its
  longitude in \<open>[-180, 180]\<close>, and is not \<open>(0, 0)\<close>; and a dictionary whose two
  coordinates decode to values outside those ranges, or to exactly \<open>(0, 0)\<close>, gives
  \<open>None\<close>.
\<close>

theorem parse_exif_gps_valid:
  fixes lat lon la lo :: "'a::{numeral,inverse,uminus,ord,zero}"
  shows "(parse_exif_gps str_upper gps_info = Inr (Some (lat, lon)) \<longrightarrow>
            - 90 \<le> lat \<and> lat \<le> 90 \<and> - 180 \<le> lon \<and> lon \<le> 180 \<and> (lat, lon) \<noteq> (0, 0)) \<and>
         (gps_fields d = (lat_ref, lat_data, lon_ref, lon_data) \<and>
          dms_to_decimal str_upper lat_data lat_ref = Inr (Some la) \<and>
          dms_to_decimal str_upper lon_data lon_ref = Inr (Some lo) \<and>
          (\<not> (- 90 \<le> la \<and> la \<le> 90) \<or> \<not> (- 180 \<le> lo \<and> lo \<le> 180) \<or> (la = 0 \<and> lo = 0)) \<longrightarrow>
            parse_exif_gps str_upper (Dict d) = Inr None)"
proof (rule conjI; rule impI)
  assume ret: "parse_exif_gps str_upper gps_info = Inr (Some (lat, lon))"
  then obtain d' where d': "gps_info = Dict d'" "parse_body str_upper d' = Inr (Some (lat, lon))"
    by (auto simp: parse_exif_gps_def split: py_arg.splits if_splits sum.splits)
  obtain r1 x1 r2 x2 where f: "gps_fields d' = (r1, x1, r2, x2)"
    by (cases "gps_fields d'") auto
  from d'(2) f obtain la' lo' where
    "dms_to_decimal str_upper x1 r1 = Inr (Some la')"
    "dms_to_decimal str_upper x2 r2 = Inr (Some lo')"
    and chk: "(if \<not> (- 90 \<le> la' \<and> la' \<le> 90) \<or> \<not> (- 180 \<le> lo' \<and> lo' \<le> 180) then Inr None
         else if la' = 0 \<and> lo' = 0 then Inr None
         else Inr (Some (la', lo'))) = (Inr (Some (lat, lon)) :: py_exc + ('a \<times> 'a) option)"
    by (auto simp: parse_body_def split: if_splits sum.splits option.splits)
  from chk have "la' = lat" "lo' = lon"
    and "- 90 \<le> la'" "la' \<le> 90" "- 180 \<le> lo'" "lo' \<le> 180" "\<not> (la' = 0 \<and> lo' = 0)"
    by (auto split: if_splits)
  then show "- 90 \<le> lat \<and> lat \<le> 90 \<and> - 180 \<le> lon \<and> lon \<le> 180 \<and> (lat, lon) \<noteq> (0, 0)"
    by auto
next
  assume h: "gps_fields d = (lat_ref, lat_data, lon_ref, lon_data) \<and>
          dms_to_decimal str_upper lat_data lat_ref = Inr (Some la) \<and>
          dms_to_decimal str_upper lon_data lon_ref = Inr (Some lo) \<and>
          (\<not> (- 90 \<le> la \<and> la \<le> 90) \<or> \<not> (- 180 \<le> lo \<and> lo \<le> 180) \<or> (la = 0 \<and> lo = 0))"
  then have "parse_body str_upper d = Inr None"
    by (auto simp: parse_body_def)
  then show "parse_exif_gps str_upper (Dict d) = Inr None"
    by (simp add: parse_exif_gps_def)
qed

theorem parse_exif_gps_valid_witness:
  "parse_exif_gps ascii_upper (Dict gps_new_york) = Inr (Some (40.7128, - 74.006)) \<and>
   (- 90 \<le> (40.7128 :: real) \<and> (40.7128 :: real) \<le> 90 \<and>
    - 180 \<le> (- 74.006 :: real) \<and> (- 74.006 :: real) \<le> 180) \<and>
   parse_exif_gps ascii_upper (Dict gps_null_island) = Inr None"
proof -
  have "gps_fields gps_null_island =
      (PStr ''N'', PSeq [Number 0, Number 0, Number 0], PStr ''E'', PSeq [Number 0, Number 0, Number 0])"
    by (simp add: gps_fields_def gps_null_island_def dict_get_def)
  with parse_exif_gps_valid [of ascii_upper "Dict gps_new_york" "40.7128" "- 74.006"
      gps_null_island "PStr ''N''" "PSeq [Number 0, Number 0, Number 0]" "PStr ''E''"
      "PSeq [Number 0, Number 0, Number 0]" 0 0]
    parse_new_york dms_zero
  show ?thesis by simp
qed

subsection \<open>Properties of \<open>to_utm\<close>\<close>

text \<open>
  Claim C9, at the longitude 180 that the claim includes (and that \<open>parse_exif_gps\<close>
  accepts): the zone number in the string is 61, which is no UTM zone.
\<close>

theorem to_utm_zone_61:
  "to_utm 0 180 = ''Zone 61N (Approximate conversion - use specialized library for precise UTM)''"
  by (simp add: to_utm_def utm_zone_def py_trunc_def str_int_def)

section \<open>Files, library calls and their trace\<close>

text \<open>
  The processing classes call into \<open>shutil\<close>, \<open>piexif\<close> and PIL. These libraries are
  not part of the repository: they are a parameter \<open>L\<close> of the model, a record of
  functions, and nothing is assumed of them. A call that raises gives \<open>Inl m\<close>, where
  \<open>m\<close> is the text \<open>str(e)\<close> of the exception; a call that writes files returns the new
  files. Every call is recorded, with its outcome, in the trace of the world, so that the
  order and the number of the calls can be stated. \<open>'c\<close> is the contents of a file, \<open>'v\<close> a
  Python object, \<open>'i\<close> an opened image.
\<close>

type_synonym path = string

datatype outcome = Returned | Raised string

datatype call =
    ShutilCopy2 path path
  | PiexifLoad path
  | PiexifDump
  | PiexifInsert path
  | PiexifRemove path
  | ImageOpen path
  | GetExif
  | ItemsOf string
  | DictUpdate string
  | ProgressCallback int int string string

type_synonym event = "call \<times> outcome"

record 'c world =
  files :: "path \<rightharpoonup> 'c"
  trace :: "event list"

record ('c, 'v, 'i) lib =
  shutil_copy2 :: "path \<Rightarrow> path \<Rightarrow> (path \<rightharpoonup> 'c) \<Rightarrow> (string + unit) \<times> (path \<rightharpoonup> 'c)"
  piexif_load :: "path \<Rightarrow> (path \<rightharpoonup> 'c) \<Rightarrow> string + (string \<times> 'v) list"
  piexif_dump :: "(string \<times> 'v) list \<Rightarrow> string + 'v"
  piexif_insert :: "'v \<Rightarrow> path \<Rightarrow> (path \<rightharpoonup> 'c) \<Rightarrow> (string + unit) \<times> (path \<rightharpoonup> 'c)"
  piexif_remove :: "path \<Rightarrow> (path \<rightharpoonup> 'c) \<Rightarrow> (string + unit) \<times> (path \<rightharpoonup> 'c)"
  image_open :: "path \<Rightarrow> (path \<rightharpoonup> 'c) \<Rightarrow> string + 'i"
  has_getexif :: "'i \<Rightarrow> bool"
  getexif :: "'i \<Rightarrow> string + 'v"
  tags :: "int \<rightharpoonup> string"
  gpstags :: "int \<rightharpoonup> string"
  py_truth :: "'v \<Rightarrow> bool"
  py_items :: "'v \<Rightarrow> string + (int \<times> 'v) list"
  data_items :: "'v \<Rightarrow> string + (string \<times> 'v) list"
  py_update :: "'v \<Rightarrow> 'v \<Rightarrow> string + 'v"

definition outcome_of :: "string + 'r \<Rightarrow> outcome" where
  "outcome_of r = (case r of Inl m \<Rightarrow> Raised m | Inr x \<Rightarrow> Returned)"

text \<open>A call that may write files, and a call that only reads or computes.\<close>

definition perform ::
  "call \<Rightarrow> ((path \<rightharpoonup> 'c) \<Rightarrow> (string + 'r) \<times> (path \<rightharpoonup> 'c)) \<Rightarrow> 'c world \<Rightarrow> (string + 'r) \<times> 'c world" where
  "perform c f w =
     (case f (files w) of (r, fs) \<Rightarrow> (r, \<lparr>files = fs, trace = trace w @ [(c, outcome_of r)]\<rparr>))"

definition observe :: "call \<Rightarrow> string + 'r \<Rightarrow> 'c world \<Rightarrow> (string + 'r) \<times> 'c world" where
  "observe c r w = (r, w\<lparr>trace := trace w @ [(c, outcome_of r)]\<rparr>)"

text \<open>One statement after another inside a \<open>try\<close>: an exception skips what follows.\<close>

definition and_then ::
  "(string + 'a) \<times> 'c world \<Rightarrow> ('a \<Rightarrow> 'c world \<Rightarrow> (string + 'b) \<times> 'c world) \<Rightarrow>
     (string + 'b) \<times> 'c world" where
  "and_then rw f = (case rw of (Inl m, w) \<Rightarrow> (Inl m, w) | (Inr x, w) \<Rightarrow> f x w)"

text \<open>\<open>except Exception as e: raise Exception(f"<prefix>{e}")\<close>\<close>

definition wrapped :: "string \<Rightarrow> (string + 'r) \<times> 'c world \<Rightarrow> (string + 'r) \<times> 'c world" where
  "wrapped prefix rw = (case rw of (Inl m, w) \<Rightarrow> (Inl (prefix @ m), w) | (Inr x, w) \<Rightarrow> (Inr x, w))"

text \<open>\<open>d[k] = v\<close> on a dictionary kept as the list of its items.\<close>

fun dict_set :: "'k \<Rightarrow> 'x \<Rightarrow> ('k \<times> 'x) list \<Rightarrow> ('k \<times> 'x) list" where
  "dict_set k v [] = [(k, v)]"
| "dict_set k v ((k', v') # d) = (if k' = k then (k, v) # d else (k', v') # dict_set k v d)"

section \<open>EXIFProcessor (src/src/processing/exif_processor.py)\<close>

subsection \<open>extract\<close>







subsection \<open>edit and delete\<close>

text \<open>The first statement of both: the backup copy, when \<open>preserve_original\<close> is true.\<close>

definition backup ::
  "('c, 'v, 'i) lib \<Rightarrow> path \<Rightarrow> bool \<Rightarrow> 'c world \<Rightarrow> (string + unit) \<times> 'c world" where
  "backup L image_path preserve_original w =
     (if preserve_original then
        (let backup_path = image_path @ ''.backup''
         in perform (ShutilCopy2 image_path backup_path) (shutil_copy2 L image_path backup_path) w)
      else (Inr (), w))"

text \<open>The loop over \<open>exif_data.items()\<close>.\<close>

fun merge_loop ::
  "('c, 'v, 'i) lib \<Rightarrow> (string \<times> 'v) list \<Rightarrow> (string \<times> 'v) list \<Rightarrow> 'c world \<Rightarrow>
     (string + (string \<times> 'v) list) \<times> 'c world" where
  "merge_loop L [] exif_dict w = (Inr exif_dict, w)"
| "merge_loop L ((key, val) # rest) exif_dict w =
     (case map_of exif_dict key of
        Some old \<Rightarrow>
          and_then (observe (DictUpdate key) (py_update L old val) w) (\<lambda>new w1.
            merge_loop L rest (dict_set key new exif_dict) w1)
      | None \<Rightarrow> merge_loop L rest (dict_set key val exif_dict) w)"

definition edit_rest ::
  "('c, 'v, 'i) lib \<Rightarrow> path \<Rightarrow> 'v \<Rightarrow> 'c world \<Rightarrow> (string + (string \<times> string) list) \<times> 'c world" where
  "edit_rest L image_path exif_data w =
     and_then (observe (PiexifLoad image_path) (piexif_load L image_path (files w)) w) (\<lambda>exif_dict w1.
     and_then (observe (ItemsOf ''exif_data'') (data_items L exif_data) w1) (\<lambda>its w2.
     and_then (merge_loop L its exif_dict w2) (\<lambda>merged w3.
     and_then (observe PiexifDump (piexif_dump L merged) w3) (\<lambda>exif_bytes w4.
     and_then (perform (PiexifInsert image_path) (piexif_insert L exif_bytes image_path) w4) (\<lambda>u w5.
       (Inr [(''status'', ''success''), (''message'', ''EXIF data updated successfully'')], w5))))))"

definition edit ::
  "('c, 'v, 'i) lib \<Rightarrow> path \<Rightarrow> 'v \<Rightarrow> bool \<Rightarrow> 'c world \<Rightarrow> (string + (string \<times> string) list) \<times> 'c world" where
  "edit L image_path exif_data preserve_original w =
     wrapped ''Failed to edit EXIF data: ''
       (and_then (backup L image_path preserve_original w) (\<lambda>u w1.
          edit_rest L image_path exif_data w1))"

definition delete_rest ::
  "('c, 'v, 'i) lib \<Rightarrow> path \<Rightarrow> 'c world \<Rightarrow> (string + (string \<times> string) list) \<times> 'c world" where
  "delete_rest L image_path w =
     and_then (perform (PiexifRemove image_path) (piexif_remove L image_path) w) (\<lambda>u w1.
       (Inr [(''status'', ''success''), (''message'', ''EXIF data deleted successfully'')], w1))"

definition delete ::
  "('c, 'v, 'i) lib \<Rightarrow> path \<Rightarrow> bool \<Rightarrow> 'c world \<Rightarrow> (string + (string \<times> string) list) \<times> 'c world" where
  "delete L image_path preserve_original w =
     wrapped ''Failed to delete EXIF data: ''
       (and_then (backup L image_path preserve_original w) (\<lambda>u w1.
          delete_rest L image_path w1))"

section \<open>BatchProcessor (src/src/processing/batch_processor.py)\<close>

subsection \<open>The paths of \<open>pathlib\<close> and \<open>os.path\<close>, POSIX flavour\<close>

text \<open>\<open>s.split(c)\<close>, \<open>c.join(parts)\<close> and \<open>s.rfind(c)\<close> for a single character.\<close>

fun split_on :: "char \<Rightarrow> string \<Rightarrow> string list" where
  "split_on c [] = [[]]"
| "split_on c (x # xs) =
     (if x = c then [] # split_on c xs
      else (case split_on c xs of [] \<Rightarrow> [[x]] | p # ps \<Rightarrow> (x # p) # ps))"

fun join_with :: "char \<Rightarrow> string list \<Rightarrow> string" where
  "join_with c [] = []"
| "join_with c [p] = p"
| "join_with c (p # q # ps) = p @ c # join_with c (q # ps)"

fun rfind :: "char \<Rightarrow> string \<Rightarrow> int" where
  "rfind c [] = - 1"
| "rfind c (x # xs) =
     (let i = rfind c xs in if i \<ge> 0 then i + 1 else if x = c then 0 else - 1)"

text \<open>
  A \<open>PurePosixPath\<close>: its root and its parts. Parsing drops empty parts and single dots;
  exactly two leading slashes are kept as a root of their own. The suffix is what follows
  the last dot of the name, unless that dot is the first or the last character (Python up
  to 3.13).
\<close>

record pure_path =
  root :: string
  parts :: "string list"

definition path_root :: "string \<Rightarrow> string" where
  "path_root s =
     (if take 1 s \<noteq> ''/'' then ''''
      else if take 2 s = ''//'' \<and> take 3 s \<noteq> ''///'' then ''//''
      else ''/'')"

definition Path :: "string \<Rightarrow> pure_path" where
  "Path s = \<lparr>root = path_root s,
             parts = filter (\<lambda>p. p \<noteq> '''' \<and> p \<noteq> ''.'') (split_on CHR ''/'' s)\<rparr>"

definition path_name :: "pure_path \<Rightarrow> string" where
  "path_name p = (if parts p = [] then '''' else last (parts p))"

definition path_suffix :: "pure_path \<Rightarrow> string" where
  "path_suffix p =
     (let name = path_name p; i = rfind CHR ''.'' name
      in if 0 < i \<and> i < int (length name) - 1 then drop (nat i) name else '''')"

definition path_stem :: "pure_path \<Rightarrow> string" where
  "path_stem p =
     (let name = path_name p; i = rfind CHR ''.'' name
      in if 0 < i \<and> i < int (length name) - 1 then take (nat i) name else name)"

definition path_parent :: "pure_path \<Rightarrow> pure_path" where
  "path_parent p = (if parts p = [] then p else p\<lparr>parts := butlast (parts p)\<rparr>)"

text \<open>\<open>p / s\<close> and \<open>str(p)\<close>\<close>

definition path_join :: "pure_path \<Rightarrow> string \<Rightarrow> pure_path" where
  "path_join p s =
     (let q = Path s in if root q \<noteq> '''' then q else p\<lparr>parts := parts p @ parts q\<rparr>)"

definition path_str :: "pure_path \<Rightarrow> string" where
  "path_str p =
     (if root p = '''' \<and> parts p = [] then ''.'' else root p @ join_with CHR ''/'' (parts p))"

text \<open>\<open>os.path.basename\<close>\<close>

definition basename :: "string \<Rightarrow> string" where
  "basename p = drop (nat (rfind CHR ''/'' p + 1)) p"

subsection \<open>run\<close>

text \<open>\<open>base_path.parent / f"{base_path.stem}_modified{base_path.suffix}"\<close>\<close>

definition modified_path :: "string \<Rightarrow> pure_path" where
  "modified_path file_path =
     (let base_path = Path file_path
      in path_join (path_parent base_path)
           (path_stem base_path @ ''_modified'' @ path_suffix base_path))"

text \<open>The working path: the copy when \<open>preserve_original\<close> is true, else the file.\<close>

definition working_copy ::
  "('c, 'v, 'i) lib \<Rightarrow> bool \<Rightarrow> path \<Rightarrow> 'c world \<Rightarrow> (string + path) \<times> 'c world" where
  "working_copy L preserve_original file_path w =
     (if preserve_original then
        (let new_path = modified_path file_path in
         and_then (perform (ShutilCopy2 file_path (path_str new_path))
                     (shutil_copy2 L file_path (path_str new_path)) w) (\<lambda>u w1.
           (Inr (path_str new_path), w1)))
      else (Inr file_path, w))"

text \<open>The body of the \<open>try\<close> for one file. An operation that is neither \<open>delete\<close> nor
  \<open>edit\<close> does nothing.\<close>

definition process_file ::
  "('c, 'v, 'i) lib \<Rightarrow> string \<Rightarrow> bool \<Rightarrow> 'v \<Rightarrow> path \<Rightarrow> 'c world \<Rightarrow> (string + unit) \<times> 'c world" where
  "process_file L operation preserve_original exif_data file_path w =
     and_then (working_copy L preserve_original file_path w) (\<lambda>working_path w1.
       if operation = ''delete'' then
         and_then (delete L working_path False w1) (\<lambda>r w2. (Inr (), w2))
       else if operation = ''edit'' then
         and_then (edit L working_path exif_data False w1) (\<lambda>r w2. (Inr (), w2))
       else (Inr (), w1))"

text \<open>\<open>status = "Success"\<close>, or \<open>f"Error: {e}"\<close> in the \<open>except\<close> clause.\<close>

definition status_of :: "string + unit \<Rightarrow> string" where
  "status_of r = (case r of Inl e \<Rightarrow> ''Error: '' @ e | Inr u \<Rightarrow> ''Success'')"

text \<open>The callback records its arguments and returns.\<close>

definition progress_callback :: "int \<Rightarrow> int \<Rightarrow> string \<Rightarrow> string \<Rightarrow> 'c world \<Rightarrow> 'c world" where
  "progress_callback cur tot fname stat w =
     w\<lparr>trace := trace w @ [(ProgressCallback cur tot fname stat, Returned)]\<rparr>"

text \<open>The loop over \<open>enumerate(self.file_paths)\<close>, from the index \<open>i\<close>.\<close>

fun run_loop ::
  "('c, 'v, 'i) lib \<Rightarrow> string \<Rightarrow> bool \<Rightarrow> 'v \<Rightarrow> int \<Rightarrow> int \<Rightarrow> path list \<Rightarrow> 'c world \<Rightarrow> 'c world" where
  "run_loop L operation preserve_original exif_data total_files i [] w = w"
| "run_loop L operation preserve_original exif_data total_files i (file_path # rest) w =
     (case process_file L operation preserve_original exif_data file_path w of
        (r, w1) \<Rightarrow>
          run_loop L operation preserve_original exif_data total_files (i + 1) rest
            (progress_callback (i + 1) total_files (basename file_path) (status_of r) w1))"

definition run ::
  "('c, 'v, 'i) lib \<Rightarrow> path list \<Rightarrow> string \<Rightarrow> bool \<Rightarrow> 'v \<Rightarrow> 'c world \<Rightarrow> 'c world" where
  "run L file_paths operation preserve_original exif_data w =
     run_loop L operation preserve_original exif_data (int (length file_paths)) 0 file_paths w"
section \<open>What a run of calls looks like\<close>


definition returned :: "event \<Rightarrow> bool" where
  "returned e = (snd e = Returned)"


definition run_ok :: "event list \<Rightarrow> string + 'r \<Rightarrow> bool" where
  "run_ok evs r =
     (case r of
        Inr x \<Rightarrow> list_all returned evs
      | Inl m \<Rightarrow> evs \<noteq> [] \<and> list_all returned (butlast evs) \<and> snd (last evs) = Raised m)"

text \<open>
  \<open>does w rw C R evs\<close>: from the world \<open>w\<close> the computation \<open>rw\<close> added the events \<open>evs\<close>,
  in order for its result, all of them calls of \<open>C\<close>, and none but those of \<open>R\<close> made twice.
\<close>

definition does ::
  "'c world \<Rightarrow> (string + 'r) \<times> 'c world \<Rightarrow> call set \<Rightarrow> call set \<Rightarrow> event list \<Rightarrow> bool" where
  "does w rw C R evs \<longleftrightarrow>
     trace (snd rw) = trace w @ evs \<and> run_ok evs (fst rw) \<and> fst ` set evs \<subseteq> C \<and>
     distinct (filter (\<lambda>c. c \<notin> R) (map fst evs))"


lemma run_ok_single: "run_ok [(c, outcome_of r)] r"
  by (cases r) (simp_all add: run_ok_def outcome_of_def returned_def)

lemma run_ok_append:
  assumes "list_all returned evs1" and "run_ok evs2 r"
  shows "run_ok (evs1 @ evs2) r"
proof (cases r)
  case (Inl m)
  with assms(2) have ne: "evs2 \<noteq> []" by (simp add: run_ok_def)
  then have "butlast (evs1 @ evs2) = evs1 @ butlast evs2" "last (evs1 @ evs2) = last evs2"
    by (simp_all add: butlast_append)
  with assms Inl ne show ?thesis by (simp add: run_ok_def)
next
  case (Inr x)
  with assms show ?thesis by (simp add: run_ok_def)
qed

lemma does_return: "does w (Inr x, w) C R []"
  by (simp add: does_def run_ok_def)

lemma does_perform: "does w (perform c f w) {c} R [(c, outcome_of (fst (perform c f w)))]"
  by (auto simp: does_def perform_def run_ok_single split: prod.splits)

lemma does_observe: "does w (observe c r w) {c} R [(c, outcome_of r)]"
  by (auto simp: does_def observe_def run_ok_single)

lemma does_mono: "does w rw C R evs \<Longrightarrow> C \<subseteq> C' \<Longrightarrow> does w rw C' R evs"
  by (auto simp: does_def)

lemma does_and_then:
  assumes first: "does w rw C1 R evs1"
    and rest: "\<And>x w1. rw = (Inr x, w1) \<Longrightarrow> \<exists>evs2. does w1 (f x w1) C2 R evs2"
    and apart: "C1 \<inter> C2 \<subseteq> R"
  shows "\<exists>evs2. does w (and_then rw f) (C1 \<union> C2) R (evs1 @ evs2) \<and>
           (evs2 \<noteq> [] \<longrightarrow> list_all returned evs1)"
proof (cases rw)
  case (Pair r w1)
  show ?thesis
  proof (cases r)
    case (Inl m)
    with Pair first have "does w (and_then rw f) (C1 \<union> C2) R (evs1 @ [])"
      by (auto simp: does_def and_then_def run_ok_def)
    then show ?thesis by blast
  next
    case (Inr x)
    with Pair rest obtain evs2 where two: "does w1 (f x w1) C2 R evs2"
      by blast
    from first Pair Inr have one: "trace w1 = trace w @ evs1" "list_all returned evs1"
      "fst ` set evs1 \<subseteq> C1" "distinct (filter (\<lambda>c. c \<notin> R) (map fst evs1))"
      by (simp_all add: does_def run_ok_def)
    from two have t: "trace (snd (f x w1)) = trace w1 @ evs2" "run_ok evs2 (fst (f x w1))"
      "fst ` set evs2 \<subseteq> C2" "distinct (filter (\<lambda>c. c \<notin> R) (map fst evs2))"
      by (simp_all add: does_def)
    have "distinct (filter (\<lambda>c. c \<notin> R) (map fst (evs1 @ evs2)))"
      using one(3,4) t(3,4) apart by (auto simp: distinct_append)
    moreover have "run_ok (evs1 @ evs2) (fst (f x w1))"
      using one(2) t(2) by (rule run_ok_append)
    ultimately have "does w (and_then rw f) (C1 \<union> C2) R (evs1 @ evs2)"
      using Pair Inr one t by (auto simp: does_def and_then_def)
    with one(2) show ?thesis by blast
  qed
qed



lemma does_and_then_ex:
  assumes "\<exists>evs1. does w rw C1 R evs1"
    and "\<And>x w1. rw = (Inr x, w1) \<Longrightarrow> \<exists>evs2. does w1 (f x w1) C2 R evs2"
    and "C1 \<inter> C2 \<subseteq> R"
  shows "\<exists>evs. does w (and_then rw f) (C1 \<union> C2) R evs"
proof -
  from assms(1) obtain evs1 where one: "does w rw C1 R evs1" ..
  have "\<exists>evs2. does w (and_then rw f) (C1 \<union> C2) R (evs1 @ evs2) \<and>
           (evs2 \<noteq> [] \<longrightarrow> list_all returned evs1)"
    using one assms(2) assms(3) by (rule does_and_then)
  then show ?thesis by blast
qed

lemma does_observe_ex: "\<exists>evs. does w (observe c r w) {c} R evs"
  by (rule exI) (rule does_observe)

lemma does_perform_ex: "\<exists>evs. does w (perform c f w) {c} R evs"
  by (rule exI) (rule does_perform)

lemma does_return_ex: "\<exists>evs. does w (Inr x, w) C R evs"
  by (rule exI) (rule does_return)

lemma does_mono_ex: "\<exists>evs. does w rw C R evs \<Longrightarrow> C \<subseteq> C' \<Longrightarrow> \<exists>evs. does w rw C' R evs"
  using does_mono by blast

subsection \<open>The calls of edit and delete\<close>

lemma does_backup:
  "does w (backup L image_path preserve_original w) {ShutilCopy2 image_path (image_path @ ''.backup'')} R
     (if preserve_original
      then [(ShutilCopy2 image_path (image_path @ ''.backup''),
             outcome_of (fst (backup L image_path preserve_original w)))]
      else [])"
  by (simp add: backup_def Let_def does_perform does_return)

lemma does_merge_loop:
  assumes "range DictUpdate \<subseteq> R"
  shows "\<exists>evs. does w (merge_loop L its exif_dict w) (range DictUpdate) R evs"
proof (induction its arbitrary: exif_dict w)
  case Nil
  show ?case by (simp add: does_return_ex)
next
  case (Cons kv its)
  obtain key val where kv: "kv = (key, val)" by (cases kv)
  show ?case
  proof (cases "map_of exif_dict key")
    case None
    with kv Cons.IH show ?thesis by simp
  next
    case (Some old)
    have "\<exists>evs. does w
        (and_then (observe (DictUpdate key) (py_update L old val) w) (\<lambda>new w1.
           merge_loop L its (dict_set key new exif_dict) w1))
        ({DictUpdate key} \<union> range DictUpdate) R evs"
      using assms by (intro does_and_then_ex does_observe_ex Cons.IH) auto
    then have "\<exists>evs. does w
        (and_then (observe (DictUpdate key) (py_update L old val) w) (\<lambda>new w1.
           merge_loop L its (dict_set key new exif_dict) w1))
        (range DictUpdate) R evs"
      by (rule does_mono_ex) auto
    with kv Some show ?thesis by simp
  qed
qed

definition edit_calls :: "path \<Rightarrow> call set" where
  "edit_calls image_path =
     {PiexifLoad image_path, ItemsOf ''exif_data'', PiexifDump, PiexifInsert image_path} \<union>
     range DictUpdate"

lemma does_edit_rest:
  "\<exists>evs. does w (edit_rest L image_path exif_data w) (edit_calls image_path) (range DictUpdate) evs"
proof -
  have "\<exists>evs. does w (edit_rest L image_path exif_data w)
      ({PiexifLoad image_path} \<union> ({ItemsOf ''exif_data''} \<union> (range DictUpdate \<union>
        ({PiexifDump} \<union> ({PiexifInsert image_path} \<union> {})))))
      (range DictUpdate) evs"
    unfolding edit_rest_def
    by (intro does_and_then_ex does_observe_ex does_perform_ex does_return_ex does_merge_loop)
       auto
  then show ?thesis
    by (rule does_mono_ex) (auto simp: edit_calls_def)
qed

lemma does_delete_rest:
  "\<exists>evs. does w (delete_rest L image_path w) {PiexifRemove image_path} R evs"
proof -
  have "\<exists>evs. does w (delete_rest L image_path w) ({PiexifRemove image_path} \<union> {}) R evs"
    unfolding delete_rest_def
    by (intro does_and_then_ex does_perform_ex does_return_ex) auto
  then show ?thesis by simp
qed

subsection \<open>The calls of extract\<close>











section \<open>A library to run the model on\<close>

text \<open>
  A small instance of the library record, for evaluating the model: a file is its EXIF
  text and its pixels; copying copies, removing empties the EXIF text, and a call on a
  file that does not exist raises.
\<close>

datatype py_object = ONone | OStr string | OMap "(int \<times> py_object) list"

definition no_such_file :: "path \<Rightarrow> string" where
  "no_such_file p = ''No such file or directory: '' @ p"

definition toy_lib :: "(string \<times> string, py_object, string \<times> string) lib" where
  "toy_lib = \<lparr>
     shutil_copy2 = (\<lambda>src dst fs. case fs src of
        None \<Rightarrow> (Inl (no_such_file src), fs) | Some c \<Rightarrow> (Inr (), fs(dst \<mapsto> c))),
     piexif_load = (\<lambda>p fs. case fs p of
        None \<Rightarrow> Inl (no_such_file p) | Some c \<Rightarrow> Inr [(''0th'', OStr (fst c))]),
     piexif_dump = (\<lambda>d. case map_of d ''0th'' of
        Some (OStr e) \<Rightarrow> Inr (OStr e) | _ \<Rightarrow> Inl ''cannot dump''),
     piexif_insert = (\<lambda>b p fs. case (b, fs p) of
        (OStr e, Some c) \<Rightarrow> (Inr (), fs(p \<mapsto> (e, snd c))) | _ \<Rightarrow> (Inl (no_such_file p), fs)),
     piexif_remove = (\<lambda>p fs. case fs p of
        None \<Rightarrow> (Inl (no_such_file p), fs) | Some c \<Rightarrow> (Inr (), fs(p \<mapsto> ('''', snd c)))),
     image_open = (\<lambda>p fs. case fs p of None \<Rightarrow> Inl (no_such_file p) | Some c \<Rightarrow> Inr c),
     has_getexif = (\<lambda>img. True),
     getexif = (\<lambda>img. Inr (if fst img = '''' then ONone else OMap [(271, OStr (fst img))])),
     tags = [271 \<mapsto> ''Make'', 34853 \<mapsto> ''GPSInfo''],
     gpstags = [1 \<mapsto> ''GPSLatitudeRef'', 2 \<mapsto> ''GPSLatitude''],
     py_truth = (\<lambda>v. case v of ONone \<Rightarrow> False | OStr s \<Rightarrow> s \<noteq> '''' | OMap m \<Rightarrow> m \<noteq> []),
     py_items = (\<lambda>v. case v of OMap m \<Rightarrow> Inr m | _ \<Rightarrow> Inl ''object has no attribute items''),
     data_items = (\<lambda>v. case v of OMap m \<Rightarrow> Inr [] | _ \<Rightarrow> Inl ''object has no attribute items''),
     py_update = (\<lambda>x y. Inl ''object has no attribute update'')\<rparr>"

definition two_files :: "(string \<times> string) world" where
  "two_files = \<lparr>files = [''a.jpg'' \<mapsto> (''Canon'', ''pixels of a''),
                         ''a_modified.jpg'' \<mapsto> (''Nikon'', ''pixels of b'')],
                trace = []\<rparr>"

section \<open>Properties of EXIFProcessor\<close>














lemma snd_wrapped [simp]: "snd (wrapped prefix rw) = snd rw"
  by (auto simp: wrapped_def split: prod.splits sum.splits)

lemma does_edit_body:
  "\<exists>evs. does w (and_then (backup L image_path preserve_original w) (\<lambda>u w1.
              edit_rest L image_path exif_data w1))
           ({ShutilCopy2 image_path (image_path @ ''.backup'')} \<union> edit_calls image_path)
           (range DictUpdate) evs"
proof (rule does_and_then_ex)
  show "\<exists>evs. does w (backup L image_path preserve_original w)
      {ShutilCopy2 image_path (image_path @ ''.backup'')} (range DictUpdate) evs"
    by (rule exI) (rule does_backup)
  show "\<exists>evs. does w1 (edit_rest L image_path exif_data w1) (edit_calls image_path)
      (range DictUpdate) evs" for w1
    by (rule does_edit_rest)
  show "{ShutilCopy2 image_path (image_path @ ''.backup'')} \<inter> edit_calls image_path
      \<subseteq> range DictUpdate"
    by (auto simp: edit_calls_def)
qed

lemma does_delete_body:
  "\<exists>evs. does w (and_then (backup L image_path preserve_original w) (\<lambda>u w1.
              delete_rest L image_path w1))
           ({ShutilCopy2 image_path (image_path @ ''.backup'')} \<union> {PiexifRemove image_path})
           {} evs"
proof (rule does_and_then_ex)
  show "\<exists>evs. does w (backup L image_path preserve_original w)
      {ShutilCopy2 image_path (image_path @ ''.backup'')} {} evs"
    by (rule exI) (rule does_backup)
  show "\<exists>evs. does w1 (delete_rest L image_path w1) {PiexifRemove image_path} {} evs" for w1
    by (rule does_delete_rest)
  show "{ShutilCopy2 image_path (image_path @ ''.backup'')} \<inter> {PiexifRemove image_path} \<subseteq> {}"
    by simp
qed




section \<open>Properties of BatchProcessor.run\<close>

text \<open>The calls of the progress callback in a trace, in order, each with its arguments.\<close>

fun progress_calls :: "event list \<Rightarrow> (int \<times> int \<times> string \<times> string) list" where
  "progress_calls [] = []"
| "progress_calls ((ProgressCallback cur tot fname stat, out) # evs) =
     (cur, tot, fname, stat) # progress_calls evs"
| "progress_calls (e # evs) = progress_calls evs"

lemma progress_calls_append [simp]:
  "progress_calls (xs @ ys) = progress_calls xs @ progress_calls ys"
  by (induction xs rule: progress_calls.induct) simp_all

text \<open>A computation is silent when it adds no call of the callback.\<close>

definition silent :: "'c world \<Rightarrow> (string + 'r) \<times> 'c world \<Rightarrow> bool" where
  "silent w rw \<longleftrightarrow> progress_calls (trace (snd rw)) = progress_calls (trace w)"

lemma silent_return: "silent w (Inr x, w)"
  by (simp add: silent_def)

lemma silent_perform: "progress_calls [(c, Returned)] = [] \<Longrightarrow> silent w (perform c f w)"
  by (cases c) (auto simp: silent_def perform_def split: prod.splits)

lemma silent_and_then:
  assumes "silent w rw" and "\<And>x w1. rw = (Inr x, w1) \<Longrightarrow> silent w1 (f x w1)"
  shows "silent w (and_then rw f)"
proof (cases rw)
  case (Pair r w1)
  with assms show ?thesis
    by (cases r) (auto simp: silent_def and_then_def)
qed

lemma silent_wrapped: "silent w rw \<Longrightarrow> silent w (wrapped prefix rw)"
  by (simp add: silent_def)

lemma silent_does:
  assumes "does w rw C R evs" and "\<And>c. c \<in> C \<Longrightarrow> progress_calls [(c, Returned)] = []"
  shows "silent w rw"
proof -
  from assms(1) have t: "trace (snd rw) = trace w @ evs" and sub: "fst ` set evs \<subseteq> C"
    by (simp_all add: does_def)
  from sub have "progress_calls evs = []"
  proof (induction evs)
    case Nil
    show ?case by simp
  next
    case (Cons e evs)
    obtain c out where e: "e = (c, out)" by (cases e)
    with Cons.prems have "c \<in> C" by simp
    then have "progress_calls [(c, Returned)] = []" by (rule assms(2))
    then have "progress_calls [(c, out)] = []" by (cases c) simp_all
    moreover from Cons have "progress_calls evs = []" by simp
    ultimately show ?case
      using progress_calls_append [of "[(c, out)]" evs] e by simp
  qed
  with t show ?thesis by (simp add: silent_def)
qed

lemma silent_edit: "silent w (edit L image_path exif_data preserve_original w)"
proof -
  from does_edit_body [of w L image_path preserve_original exif_data] obtain evs
    where "does w (and_then (backup L image_path preserve_original w) (\<lambda>u w1.
        edit_rest L image_path exif_data w1))
        ({ShutilCopy2 image_path (image_path @ ''.backup'')} \<union> edit_calls image_path)
        (range DictUpdate) evs"
    by blast
  then have "silent w (and_then (backup L image_path preserve_original w) (\<lambda>u w1.
        edit_rest L image_path exif_data w1))"
    by (rule silent_does) (auto simp: edit_calls_def)
  then show ?thesis
    unfolding edit_def by (rule silent_wrapped)
qed

lemma silent_delete: "silent w (delete L image_path preserve_original w)"
proof -
  from does_delete_body [of w L image_path preserve_original] obtain evs
    where "does w (and_then (backup L image_path preserve_original w) (\<lambda>u w1.
        delete_rest L image_path w1))
        ({ShutilCopy2 image_path (image_path @ ''.backup'')} \<union> {PiexifRemove image_path})
        {} evs"
    by blast
  then have "silent w (and_then (backup L image_path preserve_original w) (\<lambda>u w1.
        delete_rest L image_path w1))"
    by (rule silent_does) auto
  then show ?thesis
    unfolding delete_def by (rule silent_wrapped)
qed

lemma silent_working_copy: "silent w (working_copy L preserve_original file_path w)"
  by (auto simp: working_copy_def Let_def intro!: silent_and_then silent_perform silent_return)

lemma silent_process_file:
  "silent w (process_file L operation preserve_original exif_data file_path w)"
  unfolding process_file_def
  by (intro silent_and_then silent_working_copy)
     (auto intro!: silent_and_then silent_delete silent_edit silent_return)

lemma run_loop_append:
  "run_loop L operation preserve_original exif_data total_files i (xs @ ys) w =
     run_loop L operation preserve_original exif_data total_files (i + int (length xs)) ys
       (run_loop L operation preserve_original exif_data total_files i xs w)"
proof (induction xs arbitrary: i w)
  case Nil
  show ?case by simp
next
  case (Cons x xs)
  show ?case
    by (auto simp: Cons.IH ac_simps split: prod.splits)
qed

text \<open>The world in which \<open>run\<close> reaches its \<open>k\<close>-th file, and the status reported for
  that file.\<close>

definition world_before ::
  "('c, 'v, 'i) lib \<Rightarrow> path list \<Rightarrow> string \<Rightarrow> bool \<Rightarrow> 'v \<Rightarrow> 'c world \<Rightarrow> nat \<Rightarrow> 'c world" where
  "world_before L file_paths operation preserve_original exif_data w k =
     run_loop L operation preserve_original exif_data (int (length file_paths)) 0
       (take k file_paths) w"

definition file_status ::
  "('c, 'v, 'i) lib \<Rightarrow> string \<Rightarrow> bool \<Rightarrow> 'v \<Rightarrow> int \<Rightarrow> int \<Rightarrow> path list \<Rightarrow> 'c world \<Rightarrow> nat \<Rightarrow> string" where
  "file_status L operation preserve_original exif_data total_files i file_paths w k =
     (case fst (process_file L operation preserve_original exif_data (file_paths ! k)
                  (run_loop L operation preserve_original exif_data total_files i
                     (take k file_paths) w)) of
        Inl e \<Rightarrow> ''Error: '' @ e
      | Inr u \<Rightarrow> ''Success'')"

lemma run_loop_progress:
  "progress_calls (trace (run_loop L operation preserve_original exif_data total_files i file_paths w)) =
     progress_calls (trace w) @
     map (\<lambda>k. (i + int k + 1, total_files, basename (file_paths ! k),
                file_status L operation preserve_original exif_data total_files i file_paths w k))
       [0..<length file_paths]"
proof (induction file_paths rule: rev_induct)
  case Nil
  show ?case by simp
next
  case (snoc p ps)
  let ?w0 = "run_loop L operation preserve_original exif_data total_files i ps w"
  let ?rw = "process_file L operation preserve_original exif_data p ?w0"
  have quiet: "progress_calls (trace (snd ?rw)) = progress_calls (trace ?w0)"
    using silent_process_file [of ?w0 L operation preserve_original exif_data p]
    by (simp add: silent_def)
  have last: "progress_calls (trace (run_loop L operation preserve_original exif_data total_files i
        (ps @ [p]) w)) =
      progress_calls (trace ?w0) @
      [(i + int (length ps) + 1, total_files, basename p, status_of (fst ?rw))]"
    using quiet
    by (cases ?rw) (simp add: run_loop_append progress_callback_def)
  have same: "map (\<lambda>k. (i + int k + 1, total_files, basename ((ps @ [p]) ! k),
        file_status L operation preserve_original exif_data total_files i (ps @ [p]) w k))
        [0..<length ps] =
      map (\<lambda>k. (i + int k + 1, total_files, basename (ps ! k),
        file_status L operation preserve_original exif_data total_files i ps w k))
        [0..<length ps]"
    by (rule map_cong) (simp_all add: file_status_def nth_append)
  have final: "file_status L operation preserve_original exif_data total_files i (ps @ [p]) w
      (length ps) = status_of (fst ?rw)"
    by (simp add: file_status_def status_of_def)
  show ?case
    by (simp only: last snoc.IH) (simp add: same final)
qed

lemma world_before_Suc:
  assumes "k < length file_paths"
  shows "world_before L file_paths operation preserve_original exif_data w (Suc k) =
     (case process_file L operation preserve_original exif_data (file_paths ! k)
             (world_before L file_paths operation preserve_original exif_data w k) of
        (r, w1) \<Rightarrow>
          progress_callback (int k + 1) (int (length file_paths)) (basename (file_paths ! k))
            (status_of r) w1)"
proof -
  from assms have "take (Suc k) file_paths = take k file_paths @ [file_paths ! k]"
    by (rule take_Suc_conv_app_nth)
  with assms show ?thesis
    by (simp add: world_before_def run_loop_append split: prod.splits)
qed

text \<open>
  Claim C3. For a list of \<open>n\<close> paths, \<open>run\<close> calls the progress callback exactly \<open>n\<close>
  times; the \<open>k\<close>-th call (from 0) carries \<open>k + 1\<close>, \<open>n\<close>, the base name of the \<open>k\<close>-th
  path and the status of processing that path: \<open>Success\<close>, or \<open>Error: \<close> followed by the
  text of the exception when processing raised one. The paths are processed in the order
  of the list, each in the world that the one before it has left, whether that one failed
  or not.
\<close>

theorem run_reports_every_file:
  "progress_calls (trace (run L file_paths operation preserve_original exif_data w)) =
     progress_calls (trace w) @
     map (\<lambda>k. (int k + 1, int (length file_paths), basename (file_paths ! k),
                case fst (process_file L operation preserve_original exif_data (file_paths ! k)
                       (world_before L file_paths operation preserve_original exif_data w k)) of
                  Inl e \<Rightarrow> ''Error: '' @ e
                | Inr u \<Rightarrow> ''Success''))
       [0..<length file_paths] \<and>
   world_before L file_paths operation preserve_original exif_data w 0 = w \<and>
   world_before L file_paths operation preserve_original exif_data w (length file_paths) =
     run L file_paths operation preserve_original exif_data w \<and>
   (\<forall>k < length file_paths.
      world_before L file_paths operation preserve_original exif_data w (Suc k) =
        (case process_file L operation preserve_original exif_data (file_paths ! k)
                (world_before L file_paths operation preserve_original exif_data w k) of
           (r, w1) \<Rightarrow>
             progress_callback (int k + 1) (int (length file_paths)) (basename (file_paths ! k))
               (status_of r) w1))"
proof (intro conjI allI impI)
  show "progress_calls (trace (run L file_paths operation preserve_original exif_data w)) =
     progress_calls (trace w) @
     map (\<lambda>k. (int k + 1, int (length file_paths), basename (file_paths ! k),
                case fst (process_file L operation preserve_original exif_data (file_paths ! k)
                       (world_before L file_paths operation preserve_original exif_data w k)) of
                  Inl e \<Rightarrow> ''Error: '' @ e
                | Inr u \<Rightarrow> ''Success''))
       [0..<length file_paths]"
    unfolding run_def
    by (simp add: run_loop_progress file_status_def world_before_def)
  show "world_before L file_paths operation preserve_original exif_data w 0 = w"
    by (simp add: world_before_def)
  show "world_before L file_paths operation preserve_original exif_data w (length file_paths) =
     run L file_paths operation preserve_original exif_data w"
    by (simp add: world_before_def run_def)
  show "world_before L file_paths operation preserve_original exif_data w (Suc k) =
        (case process_file L operation preserve_original exif_data (file_paths ! k)
                (world_before L file_paths operation preserve_original exif_data w k) of
           (r, w1) \<Rightarrow>
             progress_callback (int k + 1) (int (length file_paths)) (basename (file_paths ! k))
               (status_of r) w1)"
    if "k < length file_paths" for k
    using that by (rule world_before_Suc)
qed

theorem run_reports_every_file_witness:
  "progress_calls (trace (run toy_lib [''missing.jpg'', ''dir/a.jpg''] ''delete'' False ONone
      (two_files\<lparr>files := [''dir/a.jpg'' \<mapsto> (''Canon'', ''pixels'')]\<rparr>))) =
     [(1, 2, ''missing.jpg'', ''Error: Failed to delete EXIF data: No such file or directory: missing.jpg''),
      (2, 2, ''a.jpg'', ''Success'')]"
proof -
  let ?w = "two_files\<lparr>files := [''dir/a.jpg'' \<mapsto> (''Canon'', ''pixels'')]\<rparr>"
  let ?ps = "[''missing.jpg'', ''dir/a.jpg'']"
  have "progress_calls (trace (run toy_lib ?ps ''delete'' False ONone ?w)) =
     progress_calls (trace ?w) @
     map (\<lambda>k. (int k + 1, int (length ?ps), basename (?ps ! k),
                case fst (process_file toy_lib ''delete'' False ONone (?ps ! k)
                       (world_before toy_lib ?ps ''delete'' False ONone ?w k)) of
                  Inl e \<Rightarrow> ''Error: '' @ e
                | Inr u \<Rightarrow> ''Success''))
       [0..<length ?ps]"
    using run_reports_every_file [of toy_lib ?ps "''delete''" False ONone ?w] by blast
  also have "\<dots> = [(1, 2, ''missing.jpg'', ''Error: Failed to delete EXIF data: No such file or directory: missing.jpg''),
      (2, 2, ''a.jpg'', ''Success'')]"
    by (simp add: upt_rec [of 0] upt_rec [of 1] world_before_def basename_def
        process_file_def working_copy_def delete_def delete_rest_def backup_def
        wrapped_def and_then_def perform_def toy_lib_def two_files_def outcome_of_def
        no_such_file_def progress_callback_def status_of_def)
  finally show ?thesis .
qed

section \<open>The batch copy can overwrite an input file\<close>

text \<open>
  Claim C5, on the list \<open>a.jpg\<close>, \<open>a_modified.jpg\<close> with \<open>preserve_original\<close> true: the copy
  made for the first file has the path of the second, so the second input file does not
  keep its contents. Both files are reported as a success.
\<close>

theorem batch_overwrites_input:
  "files two_files ''a_modified.jpg'' = Some (''Nikon'', ''pixels of b'') \<and>
   files (run toy_lib [''a.jpg'', ''a_modified.jpg''] ''delete'' True ONone two_files)
     ''a_modified.jpg'' = Some ('''', ''pixels of a'') \<and>
   progress_calls (trace (run toy_lib [''a.jpg'', ''a_modified.jpg''] ''delete'' True ONone two_files)) =
     [(1, 2, ''a.jpg'', ''Success''), (2, 2, ''a_modified.jpg'', ''Success'')]"
  by (simp add: run_def basename_def modified_path_def Path_def path_root_def path_name_def
      path_suffix_def path_stem_def path_parent_def path_join_def path_str_def
      process_file_def working_copy_def delete_def delete_rest_def backup_def
      wrapped_def and_then_def perform_def toy_lib_def two_files_def outcome_of_def
      no_such_file_def progress_callback_def status_of_def Let_def)

subsection \<open>Which files a batch leaves as they are\<close>

text \<open>
  What is asked of the library here: a copy writes at most its destination, and
  \<open>piexif.insert\<close> and \<open>piexif.remove\<close> write at most the file they are given.
\<close>

definition writes_only_target :: "('c, 'v, 'i) lib \<Rightarrow> bool" where
  "writes_only_target L \<longleftrightarrow>
     (\<forall>src dst fs p. p \<noteq> dst \<longrightarrow> snd (shutil_copy2 L src dst fs) p = fs p) \<and>
     (\<forall>b q fs p. p \<noteq> q \<longrightarrow> snd (piexif_insert L b q fs) p = fs p) \<and>
     (\<forall>q fs p. p \<noteq> q \<longrightarrow> snd (piexif_remove L q fs) p = fs p)"

lemma only_target:
  assumes "writes_only_target L"
  shows "p \<noteq> dst \<Longrightarrow> snd (shutil_copy2 L src dst fs) p = fs p"
    and "p \<noteq> q \<Longrightarrow> snd (piexif_insert L b q fs) p = fs p"
    and "p \<noteq> q \<Longrightarrow> snd (piexif_remove L q fs) p = fs p"
  using assms unfolding writes_only_target_def by blast+

text \<open>A computation keeps the files outside \<open>P\<close>.\<close>

definition keeps :: "'c world \<Rightarrow> (string + 'r) \<times> 'c world \<Rightarrow> path set \<Rightarrow> bool" where
  "keeps w rw P \<longleftrightarrow> (\<forall>p. p \<notin> P \<longrightarrow> files (snd rw) p = files w p)"

lemma keeps_return: "keeps w (Inr x, w) P"
  by (simp add: keeps_def)

lemma keeps_observe: "keeps w (observe c r w) P"
  by (simp add: keeps_def observe_def)

lemma keeps_perform:
  assumes "\<And>p. p \<notin> P \<Longrightarrow> snd (f (files w)) p = files w p"
  shows "keeps w (perform c f w) P"
  using assms by (auto simp: keeps_def perform_def split: prod.splits)

lemma keeps_library:
  assumes "writes_only_target L"
  shows "keeps w (perform c (shutil_copy2 L src dst) w) {dst}"
    and "keeps w (perform c (piexif_insert L b q) w) {q}"
    and "keeps w (perform c (piexif_remove L q) w) {q}"
  by (rule keeps_perform, simp add: only_target [OF assms])+

lemma keeps_and_then:
  assumes "keeps w rw P" and "\<And>x w1. rw = (Inr x, w1) \<Longrightarrow> keeps w1 (f x w1) P"
  shows "keeps w (and_then rw f) P"
proof (cases rw)
  case (Pair r w1)
  with assms show ?thesis
    by (cases r) (auto simp: keeps_def and_then_def)
qed

lemma keeps_wrapped: "keeps w rw P \<Longrightarrow> keeps w (wrapped prefix rw) P"
  by (simp add: keeps_def)

lemma keeps_merge_loop: "keeps w (merge_loop L its exif_dict w) P"
proof (induction its arbitrary: exif_dict w)
  case Nil
  show ?case by (simp add: keeps_return)
next
  case (Cons kv its)
  obtain key val where "kv = (key, val)" by (cases kv)
  with Cons.IH show ?case
    by (auto split: option.splits intro!: keeps_and_then keeps_observe)
qed

lemma keeps_delete:
  assumes "writes_only_target L"
  shows "keeps w (delete L image_path False w) {image_path}"
  unfolding delete_def delete_rest_def backup_def
  by (auto intro!: keeps_wrapped keeps_and_then keeps_return keeps_library [OF assms])

lemma keeps_edit:
  assumes "writes_only_target L"
  shows "keeps w (edit L image_path exif_data False w) {image_path}"
  unfolding edit_def edit_rest_def backup_def
  by (auto intro!: keeps_wrapped keeps_and_then keeps_return keeps_library [OF assms]
        keeps_observe keeps_merge_loop)

text \<open>The one file that processing \<open>file_path\<close> may write.\<close>

definition working_path :: "bool \<Rightarrow> path \<Rightarrow> path" where
  "working_path preserve_original file_path =
     (if preserve_original then path_str (modified_path file_path) else file_path)"

lemma keeps_process_file:
  assumes "writes_only_target L"
  shows "keeps w (process_file L operation preserve_original exif_data file_path w)
           {working_path preserve_original file_path}"
proof -
  let ?t = "working_path preserve_original file_path"
  have copy: "keeps w (working_copy L preserve_original file_path w) {?t}"
    by (auto simp: working_copy_def working_path_def Let_def
        intro!: keeps_and_then keeps_return keeps_library [OF assms])
  have target: "x = ?t" if "working_copy L preserve_original file_path w = (Inr x, w1)" for x w1
    using that
    by (auto simp: working_copy_def working_path_def Let_def and_then_def
        split: if_splits prod.splits sum.splits)
  show ?thesis
    unfolding process_file_def
  proof (rule keeps_and_then [OF copy])
    fix x w1
    assume "working_copy L preserve_original file_path w = (Inr x, w1)"
    then have x: "x = ?t" by (rule target)
    show "keeps w1
        (if operation = ''delete'' then
           and_then (delete L x False w1) (\<lambda>r w2. (Inr (), w2))
         else if operation = ''edit'' then
           and_then (edit L x exif_data False w1) (\<lambda>r w2. (Inr (), w2))
         else (Inr (), w1)) {?t}"
      unfolding x using assms
      by (auto intro!: keeps_and_then keeps_delete keeps_edit keeps_return)
  qed
qed

lemma run_loop_keeps:
  assumes "writes_only_target L" and "p \<notin> working_path preserve_original ` set file_paths"
  shows "files (run_loop L operation preserve_original exif_data total_files i file_paths w) p =
           files w p"
  using assms(2)
proof (induction file_paths arbitrary: i w)
  case Nil
  show ?case by simp
next
  case (Cons f fs)
  let ?rw = "process_file L operation preserve_original exif_data f w"
  from Cons.prems have "p \<noteq> working_path preserve_original f"
    and rest: "p \<notin> working_path preserve_original ` set fs"
    by auto
  with keeps_process_file [OF assms(1), of w operation preserve_original exif_data f]
  have "files (snd ?rw) p = files w p"
    by (simp add: keeps_def)
  with Cons.IH [OF rest] show ?case
    by (cases ?rw) (simp add: progress_callback_def)
qed

text \<open>
  Where claim C5 holds: a batch writes no file but the working paths of its inputs. With
  \<open>preserve_original\<close> true those are the copies, so an input file keeps its contents
  unless its path is the copy path of an input; with \<open>preserve_original\<close> false they are
  the input files themselves.
\<close>

lemma batch_keeps_other_files:
  assumes "writes_only_target L"
    and "p \<notin> working_path preserve_original ` set file_paths"
  shows "files (run L file_paths operation preserve_original exif_data w) p = files w p"
  unfolding run_def using assms by (rule run_loop_keeps)

lemma toy_lib_writes_only_target: "writes_only_target toy_lib"
  by (auto simp: writes_only_target_def toy_lib_def split: option.splits py_object.splits)

section \<open>The older EXIFProcessor (src/UI/UI.py)\<close>

text \<open>
  The window of \<open>src/UI/UI.py\<close> has a class of the same name whose methods are
  \<open>edit_exif\<close> and \<open>delete_exif\<close>. They take no \<open>preserve_original\<close>: the copy to
  \<open>image_path + ".backup"\<close> is made in every call, in \<open>edit_exif\<close> after \<open>piexif.dump\<close>
  and before \<open>piexif.insert\<close>.
\<close>

definition edit_exif ::
  "('c, 'v, 'i) lib \<Rightarrow> path \<Rightarrow> 'v \<Rightarrow> 'c world \<Rightarrow> (string + (string \<times> string) list) \<times> 'c world" where
  "edit_exif L image_path exif_data w =
     wrapped ''Failed to edit EXIF data: ''
      (and_then (observe (PiexifLoad image_path) (piexif_load L image_path (files w)) w) (\<lambda>exif_dict w1.
       and_then (observe (ItemsOf ''exif_data'') (data_items L exif_data) w1) (\<lambda>its w2.
       and_then (merge_loop L its exif_dict w2) (\<lambda>merged w3.
       and_then (observe PiexifDump (piexif_dump L merged) w3) (\<lambda>exif_bytes w4.
       and_then (perform (ShutilCopy2 image_path (image_path @ ''.backup''))
                   (shutil_copy2 L image_path (image_path @ ''.backup'')) w4) (\<lambda>u w5.
       and_then (perform (PiexifInsert image_path) (piexif_insert L exif_bytes image_path) w5) (\<lambda>u' w6.
         (Inr [(''status'', ''success''), (''message'', ''EXIF data updated successfully'')], w6))))))))"

definition delete_exif ::
  "('c, 'v, 'i) lib \<Rightarrow> path \<Rightarrow> 'c world \<Rightarrow> (string + (string \<times> string) list) \<times> 'c world" where
  "delete_exif L image_path w =
     wrapped ''Failed to delete EXIF data: ''
      (and_then (perform (ShutilCopy2 image_path (image_path @ ''.backup''))
                   (shutil_copy2 L image_path (image_path @ ''.backup'')) w) (\<lambda>u w1.
       and_then (perform (PiexifRemove image_path) (piexif_remove L image_path) w1) (\<lambda>u' w2.
         (Inr [(''status'', ''success''), (''message'', ''EXIF data deleted successfully'')], w2))))"

lemma delete_exif_always_copies: "delete_exif L image_path w = delete L image_path True w"
  by (simp add: delete_exif_def delete_def delete_rest_def backup_def Let_def)

lemma edit_exif_always_copies:
  assumes "fst (edit_exif L image_path exif_data w) = Inr v"
  shows "(ShutilCopy2 image_path (image_path @ ''.backup''), Returned)
           \<in> set (trace (snd (edit_exif L image_path exif_data w)))"
  using assms
  by (auto simp: edit_exif_def wrapped_def and_then_def perform_def outcome_of_def
      split: prod.splits sum.splits)

end
